theory Spec2Isabelle
  imports Complex_Main "HOL-Library.Char_ord" "HOL-Library.List_Lexorder"
begin

section \<open>Errors raised by the pipeline\<close>

text \<open>
  The script \<^verbatim>\<open>AI_Concentration/autoencoder_model.py\<close> has no error taxonomy of its
  own: every failure is an exception of Python, pandas, numpy or scikit-learn that
  propagates uncaught. Each one is a value here, and a fallible step returns
  \<open>py_error + 'a\<close> with \<open>Inl\<close> for the exception.
\<close>

datatype py_error =
  KeyError | ValueError | TypeError | IndexError | DatabaseError | FileNotFoundError

section \<open>Model Builder: \<^verbatim>\<open>build_autoencoder\<close>\<close>

text \<open>
  A Keras functional model is described by its input width and the layers stacked on
  it, in order. \<^verbatim>\<open>Dense(units, activation, kernel_regularizer)\<close> and
  \<^verbatim>\<open>Dropout(rate)\<close> are the only layers the script builds. Widths are natural
  numbers. The model is the architecture the function asks Keras for: the function itself
  checks nothing, and whether Keras accepts a layer's arguments (it refuses a dropout rate
  above 1, for instance) is library code outside the repository.
\<close>

datatype activation = Relu | Sigmoid

datatype layer = Dense nat activation "real option" | Dropout real

record network =
  input_shape :: nat
  layers :: "layer list"
  optimizer :: string
  loss :: string

text \<open>
  One pass of either \<^verbatim>\<open>for dim in ...\<close> loop: a regularised ReLU layer per width,
  followed by a dropout layer only when \<^verbatim>\<open>dropout_rate > 0.0\<close>.
\<close>

fun add_hidden :: "real \<Rightarrow> real \<Rightarrow> layer list \<Rightarrow> nat list \<Rightarrow> layer list" where
  "add_hidden l2_reg dropout_rate encoded [] = encoded"
| "add_hidden l2_reg dropout_rate encoded (d # dims) =
     add_hidden l2_reg dropout_rate
       (let e = encoded @ [Dense d Relu (Some l2_reg)]
        in if dropout_rate > 0 then e @ [Dropout dropout_rate] else e)
       dims"

text \<open>\<^verbatim>\<open>encoding_dims[:-1]\<close> is \<open>butlast\<close> (empty for an empty list, as in Python).\<close>

definition build_autoencoder :: "nat \<Rightarrow> nat list \<Rightarrow> real \<Rightarrow> real \<Rightarrow> network" where
  "build_autoencoder input_dim encoding_dims l2_reg dropout_rate =
     (let encoded = add_hidden l2_reg dropout_rate [] encoding_dims;
          encoded = add_hidden l2_reg dropout_rate encoded (rev (butlast encoding_dims));
          decoded = encoded @ [Dense input_dim Sigmoid None]
      in \<lparr>input_shape = input_dim, layers = decoded,
          optimizer = ''adam'', loss = ''mse''\<rparr>)"

text \<open>The widths of the dense layers of a stack, in order; dropout layers have none.\<close>

fun dense_widths :: "layer list \<Rightarrow> nat list" where
  "dense_widths [] = []"
| "dense_widths (Dense n a r # ls) = n # dense_widths ls"
| "dense_widths (Dropout p # ls) = dense_widths ls"

text \<open>The width of the tensor leaving a stack fed with width \<open>w\<close>.\<close>

fun out_width :: "nat \<Rightarrow> layer list \<Rightarrow> nat" where
  "out_width w [] = w"
| "out_width w (Dense n a r # ls) = out_width n ls"
| "out_width w (Dropout p # ls) = out_width w ls"

definition output_width :: "network \<Rightarrow> nat" where
  "output_width net = out_width (input_shape net) (layers net)"

text \<open>The two activation functions, on one unit's pre-activation.\<close>

definition sigmoid :: "real \<Rightarrow> real" where
  "sigmoid x = 1 / (1 + exp (- x))"

fun apply_activation :: "activation \<Rightarrow> real \<Rightarrow> real" where
  "apply_activation Relu x = max 0 x"
| "apply_activation Sigmoid x = sigmoid x"

section \<open>Data frames\<close>

text \<open>
  A pandas data frame is its column labels and its rows, every row as long as the list
  of labels; labels are distinct (a table's column names are, and \<^verbatim>\<open>read_csv\<close>
  renames a repeated header). A cell is a number, a text, a missing value
  (\<^verbatim>\<open>None\<close>/\<^verbatim>\<open>NaN\<close>) or one of the two infinities. Floating-point numbers are
  idealised as reals throughout.
\<close>

datatype cell = Num real | Str string | NaN | PosInf | NegInf

record frame =
  columns :: "string list"
  rows :: "cell list list"

definition wf_frame :: "frame \<Rightarrow> bool" where
  "wf_frame data =
     (distinct (columns data) \<and> list_all (\<lambda>r. length r = length (columns data)) (rows data))"

text \<open>\<^verbatim>\<open>data.dropna()\<close>: the rows without a missing value.\<close>

definition dropna :: "frame \<Rightarrow> frame" where
  "dropna data = data\<lparr>rows := filter (\<lambda>r. NaN \<notin> set r) (rows data)\<rparr>"

text \<open>\<^verbatim>\<open>data.replace([np.inf, -np.inf], np.nan)\<close>.\<close>

fun replace_inf_cell :: "cell \<Rightarrow> cell" where
  "replace_inf_cell PosInf = NaN"
| "replace_inf_cell NegInf = NaN"
| "replace_inf_cell c = c"

definition replace_inf :: "frame \<Rightarrow> frame" where
  "replace_inf data = data\<lparr>rows := map (map replace_inf_cell) (rows data)\<rparr>"

text \<open>
  \<^verbatim>\<open>data.drop(labels, axis=1)\<close>: pandas raises \<^verbatim>\<open>KeyError\<close> when a label is not
  a column (its default \<^verbatim>\<open>errors='raise'\<close>), and otherwise removes the labelled columns
  from every row.
\<close>

definition keep_columns :: "(string \<Rightarrow> bool) \<Rightarrow> frame \<Rightarrow> frame" where
  "keep_columns P data =
     \<lparr>columns = filter P (columns data),
      rows = map (\<lambda>r. map snd (filter (\<lambda>(c, x). P c) (zip (columns data) r))) (rows data)\<rparr>"

definition drop_columns :: "string list \<Rightarrow> frame \<Rightarrow> py_error + frame" where
  "drop_columns labels data =
     (if list_all (\<lambda>l. l \<in> set (columns data)) labels
      then Inr (keep_columns (\<lambda>c. c \<notin> set labels) data)
      else Inl KeyError)"

text \<open>The seven identifier and free-text columns both preprocessing paths name.\<close>

definition id_columns :: "string list" where
  "id_columns = [''id'', ''card_id'', ''customer_id'', ''email'', ''address_city'',
                 ''address_country'', ''name_on_card'']"

text \<open>
  \<^verbatim>\<open>data[column]\<close> raises \<^verbatim>\<open>KeyError\<close> for a label that is not a column;
  \<^verbatim>\<open>data[column] = values\<close> overwrites the column in place, or appends it when the
  label is new.
\<close>

fun column_index :: "string \<Rightarrow> string list \<Rightarrow> nat option" where
  "column_index c [] = None"
| "column_index c (x # xs) = (if x = c then Some 0 else map_option Suc (column_index c xs))"

definition get_column :: "string \<Rightarrow> frame \<Rightarrow> py_error + cell list" where
  "get_column c data =
     (case column_index c (columns data) of
        None \<Rightarrow> Inl KeyError
      | Some i \<Rightarrow> Inr (map (\<lambda>r. r ! i) (rows data)))"

definition set_column :: "string \<Rightarrow> cell list \<Rightarrow> frame \<Rightarrow> frame" where
  "set_column c vals data =
     (case column_index c (columns data) of
        None \<Rightarrow> \<lparr>columns = columns data @ [c],
                 rows = map2 (\<lambda>r v. r @ [v]) (rows data) vals\<rparr>
      | Some i \<Rightarrow> data\<lparr>rows := map2 (\<lambda>r v. r[i := v]) (rows data) vals\<rparr>)"

section \<open>Categorical encoding: \<^verbatim>\<open>LabelEncoder.fit_transform\<close>\<close>

text \<open>
  scikit-learn's encoder learns the sorted distinct values of the column it is fitted on
  (\<^verbatim>\<open>classes_\<close>) and replaces each value by its position among them. Texts are
  compared as Python compares strings, position by position; a column mixing texts and
  numbers cannot be sorted and raises \<^verbatim>\<open>TypeError\<close>. The columns it meets here hold
  no missing or infinite value, the rows having been cleaned before.
\<close>

fun str_of :: "cell \<Rightarrow> string option" where
  "str_of (Str s) = Some s"
| "str_of c = None"

fun num_of :: "cell \<Rightarrow> real option" where
  "num_of (Num x) = Some x"
| "num_of c = None"

definition unique :: "'a::linorder list \<Rightarrow> 'a list" where
  "unique ys = sort (remdups ys)"

fun index_of :: "'a \<Rightarrow> 'a list \<Rightarrow> nat" where
  "index_of v [] = 0"
| "index_of v (c # cs) = (if v = c then 0 else Suc (index_of v cs))"

definition encode :: "'a::linorder list \<Rightarrow> cell list" where
  "encode ys = (let classes = unique ys in map (\<lambda>v. Num (real (index_of v classes))) ys)"

definition label_fit_transform :: "cell list \<Rightarrow> py_error + cell list" where
  "label_fit_transform y =
     (case those (map str_of y) of
        Some ss \<Rightarrow> Inr (encode ss)
      | None \<Rightarrow>
          (case those (map num_of y) of
             Some ns \<Rightarrow> Inr (encode ns)
           | None \<Rightarrow> Inl TypeError))"

text \<open>\<^verbatim>\<open>data[column] = label_encoder.fit_transform(data[column])\<close>.\<close>

definition encode_column :: "string \<Rightarrow> frame \<Rightarrow> py_error + frame" where
  "encode_column c data =
     (case get_column c data of
        Inl e \<Rightarrow> Inl e
      | Inr y \<Rightarrow>
          (case label_fit_transform y of
             Inl e \<Rightarrow> Inl e
           | Inr codes \<Rightarrow> Inr (set_column c codes data)))"

text \<open>The Loader's \<^verbatim>\<open>for column in ['address_state']\<close>, refitting the encoder per column.\<close>

fun encode_columns :: "string list \<Rightarrow> frame \<Rightarrow> py_error + frame" where
  "encode_columns [] data = Inr data"
| "encode_columns (c # cs) data =
     (case encode_column c data of
        Inl e \<Rightarrow> Inl e
      | Inr data' \<Rightarrow> encode_columns cs data')"

section \<open>Preprocessing in the Loader and in the Scorer\<close>

text \<open>
  Lines 49 to 56 of \<^verbatim>\<open>load_and_preprocess_data\<close>: the drop and the encoding are
  unconditional.
\<close>

definition loader_preprocess :: "frame \<Rightarrow> py_error + frame" where
  "loader_preprocess data =
     (let data = dropna data;
          data = dropna (replace_inf data)
      in case drop_columns id_columns data of
           Inl e \<Rightarrow> Inl e
         | Inr data \<Rightarrow> encode_columns [''address_state''] data)"

text \<open>
  Lines 125 to 133 of \<^verbatim>\<open>detect_and_evaluate_fraud\<close>: the drop is guarded by
  \<^verbatim>\<open>{...}.issubset(data.columns)\<close>, all seven labels at once, and the encoding by
  \<^verbatim>\<open>'address_state' in data.columns\<close>.
\<close>

definition scorer_preprocess :: "frame \<Rightarrow> py_error + frame" where
  "scorer_preprocess data =
     (let data = dropna data;
          data = dropna (replace_inf data)
      in case (if set id_columns \<subseteq> set (columns data)
               then drop_columns id_columns data else Inr data) of
           Inl e \<Rightarrow> Inl e
         | Inr data \<Rightarrow>
             (if ''address_state'' \<in> set (columns data)
              then encode_column ''address_state'' data
              else Inr data))"

text \<open>
  The numeric array scikit-learn makes of a frame: a text cell cannot be converted and
  raises \<^verbatim>\<open>ValueError\<close>, as a missing or infinite value does.
\<close>

definition to_numeric :: "frame \<Rightarrow> py_error + real list list" where
  "to_numeric data =
     (case those (map (\<lambda>r. those (map num_of r)) (rows data)) of
        None \<Rightarrow> Inl ValueError
      | Some X \<Rightarrow> Inr X)"

section \<open>Array statistics of numpy\<close>

type_synonym matrix = "real list list"

definition np_mean :: "real list \<Rightarrow> real" where
  "np_mean xs = sum_list xs / real (length xs)"

text \<open>\<^verbatim>\<open>np.std\<close>: the population standard deviation (\<^verbatim>\<open>ddof=0\<close>).\<close>

definition np_std :: "real list \<Rightarrow> real" where
  "np_std xs = sqrt (np_mean (map (\<lambda>x. (x - np_mean xs) ^ 2) xs))"

definition np_median :: "real list \<Rightarrow> real" where
  "np_median xs =
     (let s = sort xs; n = length s
      in if even n then (s ! (n div 2 - 1) + s ! (n div 2)) / 2 else s ! (n div 2))"

text \<open>
  \<^verbatim>\<open>np.percentile(a, q)\<close> with its default linear interpolation: the value at the
  virtual index \<open>(n - 1) * q / 100\<close> of the sorted array, interpolated between the two
  neighbouring elements. A percentile outside \<open>[0, 100]\<close> raises \<^verbatim>\<open>ValueError\<close>; an
  empty array has no percentile (numpy fails on its index \<open>-1\<close>).
\<close>

definition linear_interpolation :: "real list \<Rightarrow> real \<Rightarrow> real" where
  "linear_interpolation s h =
     (let lo = nat \<lfloor>h\<rfloor>;
          hi = min (lo + 1) (length s - 1)
      in s ! lo + (s ! hi - s ! lo) * (h - real lo))"

definition np_percentile :: "real list \<Rightarrow> real \<Rightarrow> py_error + real" where
  "np_percentile a q =
     (if q < 0 \<or> 100 < q then Inl ValueError
      else if a = [] then Inl IndexError
      else Inr (linear_interpolation (sort a) (real (length a - 1) * (q / 100))))"

text \<open>
  \<^verbatim>\<open>np.argsort\<close>: the indices that sort the array, smallest value first. Equal values
  are kept in index order here; numpy's default sort promises no order among them, and
  nothing below depends on it.
\<close>

definition argsort :: "real list \<Rightarrow> nat list" where
  "argsort xs = sort_key (\<lambda>i. xs ! i) [0..<length xs]"

text \<open>
  \<^verbatim>\<open>np.argsort(reconstruction_errors)[-5:][::-1]\<close>: the last five indices of the
  sorted order (all of them when there are fewer than five), reversed.
\<close>

definition top_anomalies :: "real list \<Rightarrow> nat list" where
  "top_anomalies errs = rev (drop (length errs - 5) (argsort errs))"

text \<open>\<^verbatim>\<open>np.mean(np.square(reconstructions - data), axis=1)\<close>, one error per row.\<close>

definition reconstruction_errors :: "matrix \<Rightarrow> matrix \<Rightarrow> real list" where
  "reconstruction_errors reconstructions data =
     map2 (\<lambda>r x. np_mean (map2 (\<lambda>a b. (a - b) ^ 2) r x)) reconstructions data"

section \<open>Standard scaling: \<^verbatim>\<open>StandardScaler\<close>\<close>

text \<open>
  The fitted state of the scaler is the per-column mean and scale (its \<^verbatim>\<open>mean_\<close>
  and \<^verbatim>\<open>scale_\<close>). The scale is the
  population standard deviation of the column, replaced by 1 for a constant column.
  Fitting or transforming an array with no row or no column raises \<^verbatim>\<open>ValueError\<close>,
  as does transforming an array whose width is not the fitted one.
\<close>

record scaler =
  sc_mean :: "real list"
  sc_scale :: "real list"

definition column :: "nat \<Rightarrow> matrix \<Rightarrow> real list" where
  "column j X = map (\<lambda>r. r ! j) X"

definition scaler_fit :: "matrix \<Rightarrow> py_error + scaler" where
  "scaler_fit X =
     (if X = [] then Inl ValueError
      else
        (let d = length (hd X)
         in if d = 0 then Inl ValueError
            else Inr \<lparr>sc_mean = map (\<lambda>j. np_mean (column j X)) [0..<d],
                      sc_scale = map (\<lambda>j. let s = np_std (column j X)
                                         in if s = 0 then 1 else s) [0..<d]\<rparr>))"

definition scaler_transform :: "scaler \<Rightarrow> matrix \<Rightarrow> py_error + matrix" where
  "scaler_transform sc X =
     (if X = [] then Inl ValueError
      else if length (hd X) = 0 \<or> length (hd X) \<noteq> length (sc_mean sc) then Inl ValueError
      else Inr (map (\<lambda>r. map2 (\<lambda>x (m, s). (x - m) / s) r (zip (sc_mean sc) (sc_scale sc))) X))"

definition scaler_fit_transform :: "matrix \<Rightarrow> py_error + scaler \<times> matrix" where
  "scaler_fit_transform X =
     (case scaler_fit X of
        Inl e \<Rightarrow> Inl e
      | Inr sc \<Rightarrow>
          (case scaler_transform sc X of
             Inl e \<Rightarrow> Inl e
           | Inr Y \<Rightarrow> Inr (sc, Y)))"

section \<open>Data Loader: \<^verbatim>\<open>load_and_preprocess_data\<close>\<close>

text \<open>
  \<^verbatim>\<open>train_test_split(arr, test_size, random_state)\<close> shuffles the row indices with a
  random generator and cuts the shuffled indices: the first \<open>n_test\<close> are the test rows,
  the next \<open>n_train\<close> the training rows. The generator is the one seeded with
  \<^verbatim>\<open>random_state\<close> when a seed is given, and numpy's global generator, whose state
  differs from run to run, when none is. The generator itself is library code: \<open>RandomState\<close>
  (seed to generator state) and \<open>permutation\<close> (state and length to shuffled indices) are
  parameters. A split that leaves no training row raises \<^verbatim>\<open>ValueError\<close>.
\<close>

definition train_test_split ::
  "(nat \<Rightarrow> 'g) \<Rightarrow> ('g \<Rightarrow> nat \<Rightarrow> nat list) \<Rightarrow> 'g \<Rightarrow> 'a list \<Rightarrow> real \<Rightarrow> nat option
   \<Rightarrow> py_error + 'a list \<times> 'a list" where
  "train_test_split RandomState permutation global_rng arr test_size random_state =
     (if test_size \<le> 0 \<or> 1 \<le> test_size then Inl ValueError
      else
        (let n_samples = length arr;
             n_test = nat \<lceil>test_size * real n_samples\<rceil>;
             n_train = n_samples - n_test
         in if n_train = 0 then Inl ValueError
            else
              (let rng = (case random_state of None \<Rightarrow> global_rng | Some s \<Rightarrow> RandomState s);
                   perm = permutation rng n_samples;
                   ind_test = take n_test perm;
                   ind_train = take n_train (drop n_test perm)
               in Inr (map (\<lambda>i. arr ! i) ind_train, map (\<lambda>i. arr ! i) ind_test))))"

text \<open>
  The database is a map from a path to the rows of its table
  \<^verbatim>\<open>account_stripemodel\<close>; a path without that table makes the query raise.
\<close>

definition load_and_preprocess_data ::
  "(nat \<Rightarrow> 'g) \<Rightarrow> ('g \<Rightarrow> nat \<Rightarrow> nat list) \<Rightarrow> 'g \<Rightarrow> (string \<rightharpoonup> frame) \<Rightarrow> string
   \<Rightarrow> py_error + matrix \<times> matrix \<times> scaler" where
  "load_and_preprocess_data RandomState permutation global_rng db db_path =
     (case db db_path of
        None \<Rightarrow> Inl DatabaseError
      | Some data \<Rightarrow>
          (case loader_preprocess data of
             Inl e \<Rightarrow> Inl e
           | Inr data \<Rightarrow>
               (case to_numeric data of
                  Inl e \<Rightarrow> Inl e
                | Inr X \<Rightarrow>
                    (case scaler_fit_transform X of
                       Inl e \<Rightarrow> Inl e
                     | Inr (sc, data_scaled) \<Rightarrow>
                         (case train_test_split RandomState permutation global_rng
                                 data_scaled (2 / 10) (Some 42) of
                            Inl e \<Rightarrow> Inl e
                          | Inr (train_data, test_data) \<Rightarrow>
                              Inr (train_data, test_data, sc))))))"

section \<open>Evaluator: \<^verbatim>\<open>evaluate_model_performance\<close>\<close>

text \<open>
  The function only prints; the report holds the values it prints, before formatting.
  On an empty array \<^verbatim>\<open>np.min\<close> raises \<^verbatim>\<open>ValueError\<close>.
\<close>

record eval_report =
  mean_error :: real
  median_error :: real
  min_error :: real
  max_error :: real
  std_error :: real
  anomalies :: "bool list"
  num_anomalies :: nat
  total_samples :: nat
  proportion :: real
  top_reported :: "(nat \<times> real) list"

definition evaluate_model_performance :: "real list \<Rightarrow> real \<Rightarrow> py_error + eval_report" where
  "evaluate_model_performance errs threshold =
     (if errs = [] then Inl ValueError
      else
        (let flags = map (\<lambda>e. e > threshold) errs;
             n = length (filter (\<lambda>b. b) flags);
             total = length errs
         in Inr \<lparr>mean_error = np_mean errs,
                  median_error = np_median errs,
                  min_error = Min (set errs),
                  max_error = Max (set errs),
                  std_error = np_std errs,
                  anomalies = flags,
                  num_anomalies = n,
                  total_samples = total,
                  proportion = real n / real total,
                  top_reported = map (\<lambda>idx. (idx, errs ! idx)) (top_anomalies errs)\<rparr>))"

section \<open>Scorer: \<^verbatim>\<open>detect_and_evaluate_fraud\<close>\<close>

text \<open>
  The file system is a map from a path to the frame \<^verbatim>\<open>read_csv\<close> reads there. The
  trained network enters through its \<^verbatim>\<open>predict\<close> function. The scaler is an object
  the caller shares with the function, so the function returns the scaler's state after
  the call beside its outcome: the report it prints and the error array it saves.
\<close>

record score_report =
  scaled :: matrix
  errors :: "real list"
  flagged :: "bool list"
  n_flagged :: nat
  n_total :: nat
  share :: real
  top5 :: "(nat \<times> real) list"
  saved_npy :: "real list"

definition detect_and_evaluate_fraud ::
  "(string \<rightharpoonup> frame) \<Rightarrow> string \<Rightarrow> (matrix \<Rightarrow> matrix) \<Rightarrow> scaler \<Rightarrow> real
   \<Rightarrow> scaler \<times> (py_error + score_report)" where
  "detect_and_evaluate_fraud files csv_path predict sc threshold =
     (case files csv_path of
        None \<Rightarrow> (sc, Inl FileNotFoundError)
      | Some data \<Rightarrow>
          (case scorer_preprocess data of
             Inl e \<Rightarrow> (sc, Inl e)
           | Inr data \<Rightarrow>
               (case to_numeric data of
                  Inl e \<Rightarrow> (sc, Inl e)
                | Inr X \<Rightarrow>
                    (case scaler_transform sc X of
                       Inl e \<Rightarrow> (sc, Inl e)
                     | Inr data_scaled \<Rightarrow>
                         (let reconstructions = predict data_scaled;
                              errs = reconstruction_errors reconstructions data_scaled;
                              flags = map (\<lambda>e. e > threshold) errs;
                              n = length (filter (\<lambda>b. b) flags);
                              total = length errs
                          in (sc, Inr \<lparr>scaled = data_scaled,
                                       errors = errs,
                                       flagged = flags,
                                       n_flagged = n,
                                       n_total = total,
                                       share = real n / real total,
                                       top5 = map (\<lambda>idx. (idx, errs ! idx)) (top_anomalies errs),
                                       saved_npy = errs\<rparr>))))))"

text \<open>Scoring several files one after the other with the same scaler object.\<close>

fun score_all ::
  "(string \<rightharpoonup> frame) \<Rightarrow> (matrix \<Rightarrow> matrix) \<Rightarrow> real \<Rightarrow> scaler \<Rightarrow> string list
   \<Rightarrow> scaler \<times> (py_error + score_report) list" where
  "score_all files predict threshold sc [] = (sc, [])"
| "score_all files predict threshold sc (p # ps) =
     (let (sc', r) = detect_and_evaluate_fraud files p predict sc threshold;
          (sc'', rs) = score_all files predict threshold sc' ps
      in (sc'', r # rs))"

section \<open>Properties of the Model Builder\<close>

lemma dense_widths_append:
  "dense_widths (xs @ ys) = dense_widths xs @ dense_widths ys"
  by (induction xs rule: dense_widths.induct) simp_all

lemma dense_widths_add_hidden:
  "dense_widths (add_hidden l r acc ws) = dense_widths acc @ ws"
  by (induction ws arbitrary: acc) (simp_all add: dense_widths_append Let_def)

lemma out_width_append:
  "out_width w (xs @ ys) = out_width (out_width w xs) ys"
  by (induction w xs rule: out_width.induct) simp_all

lemma sigmoid_range: "0 < sigmoid x \<and> sigmoid x < 1"
proof -
  have "0 < exp (- x)" by simp
  then show ?thesis by (simp add: sigmoid_def add_pos_pos)
qed

text \<open>
  C4. For every input dimensionality \<open>d\<close> and every list of encoder widths \<open>ws\<close>
  (empty or not), the dense layers of the network \<^verbatim>\<open>build_autoencoder\<close> builds have
  the widths \<open>ws\<close>, then the reversed widths without the bottleneck, then \<open>d\<close>; the last
  layer is the unregularised sigmoid layer of width \<open>d\<close>, so the output width is the
  input width whatever the widths are; and the sigmoid takes its values in \<open>[0, 1]\<close>.
\<close>

theorem build_autoencoder_widths:
  "dense_widths (layers (build_autoencoder d ws l2 rate)) = ws @ rev (butlast ws) @ [d]
   \<and> last (layers (build_autoencoder d ws l2 rate)) = Dense d Sigmoid None
   \<and> input_shape (build_autoencoder d ws l2 rate) = d
   \<and> output_width (build_autoencoder d ws l2 rate) = d
   \<and> 0 \<le> apply_activation Sigmoid x \<and> apply_activation Sigmoid x \<le> 1"
proof -
  have range: "0 \<le> sigmoid x \<and> sigmoid x \<le> 1"
    using sigmoid_range [of x] by simp
  show ?thesis
    using range
    by (simp add: build_autoencoder_def output_width_def Let_def
        dense_widths_append dense_widths_add_hidden out_width_append)
qed

section \<open>Properties of the top anomalies\<close>

lemma argsort_props:
  "length (argsort xs) = length xs"
  "set (argsort xs) = {..<length xs}"
  "distinct (argsort xs)"
  "sorted (map (\<lambda>i. xs ! i) (argsort xs))"
  by (auto simp: argsort_def)

lemma top_anomalies_length: "length (top_anomalies errs) = min 5 (length errs)"
  by (simp add: top_anomalies_def argsort_props(1))

lemma top_anomalies_distinct: "distinct (top_anomalies errs)"
  by (simp add: top_anomalies_def argsort_props(3))

lemma top_anomalies_subset: "set (top_anomalies errs) \<subseteq> {..<length errs}"
proof -
  have "set (drop (length errs - 5) (argsort errs)) \<subseteq> set (argsort errs)"
    by (rule set_drop_subset)
  then show ?thesis by (simp add: top_anomalies_def argsort_props(2))
qed

lemma top_anomalies_descending:
  "sorted_wrt (\<lambda>i j. errs ! j \<le> errs ! i) (top_anomalies errs)"
proof -
  have "sorted (map (\<lambda>i. errs ! i) (drop (length errs - 5) (argsort errs)))"
    using argsort_props(4) [of errs]
    by (simp add: sorted_wrt_drop drop_map [symmetric] del: drop_map)
  then show ?thesis
    by (simp add: top_anomalies_def sorted_wrt_rev sorted_wrt_map)
qed

lemma top_anomalies_dominate:
  assumes "j < length errs" "j \<notin> set (top_anomalies errs)" "i \<in> set (top_anomalies errs)"
  shows "errs ! j \<le> errs ! i"
proof -
  let ?p = "argsort errs" and ?k = "length errs - 5"
  have split: "?p = take ?k ?p @ drop ?k ?p" by simp
  have "sorted (map (\<lambda>i. errs ! i) (take ?k ?p @ drop ?k ?p))"
    using argsort_props(4) [of errs] by simp
  then have le: "\<forall>a \<in> set (take ?k ?p). \<forall>b \<in> set (drop ?k ?p). errs ! a \<le> errs ! b"
    by (simp add: sorted_append del: append_take_drop_id)
  have "j \<in> set ?p" using assms(1) by (simp add: argsort_props(2))
  then have "j \<in> set (take ?k ?p) \<union> set (drop ?k ?p)"
    using split by (metis set_append)
  moreover have "j \<notin> set (drop ?k ?p)" using assms(2) by (simp add: top_anomalies_def)
  ultimately have "j \<in> set (take ?k ?p)" by blast
  moreover have "i \<in> set (drop ?k ?p)" using assms(3) by (simp add: top_anomalies_def)
  ultimately show ?thesis using le by blast
qed

text \<open>
  C2 (amended). For every error array with at least five elements, the Evaluator returns
  and the samples it reports are those at the indices \<open>top_anomalies\<close>, each with its
  error: exactly five indices, all distinct and in range, ordered by decreasing error, and no
  index left out has a larger error than a reported one: they are the five largest
  errors. The count is the constant 5 of the source (it has no parameter \<open>k\<close>): for the
  errors \<open>[0.1, 0.9, 0.3, 0.05, 0.7]\<close> the reported indices are \<open>[1, 4, 2, 0, 3]\<close>.
\<close>

theorem top_anomalies_five:
  assumes "5 \<le> length errs"
  shows "(\<exists>r. evaluate_model_performance errs threshold = Inr r
            \<and> map fst (top_reported r) = top_anomalies errs
            \<and> map snd (top_reported r) = map (\<lambda>i. errs ! i) (top_anomalies errs))
    \<and> length (top_anomalies errs) = 5
    \<and> distinct (top_anomalies errs)
    \<and> set (top_anomalies errs) \<subseteq> {..<length errs}
    \<and> sorted_wrt (\<lambda>i j. errs ! j \<le> errs ! i) (top_anomalies errs)
    \<and> (\<forall>j < length errs. j \<notin> set (top_anomalies errs) \<longrightarrow>
          (\<forall>i \<in> set (top_anomalies errs). errs ! j \<le> errs ! i))
    \<and> top_anomalies [0.1, 0.9, 0.3, 0.05, 0.7] = [1, 4, 2, 0, 3]"
proof -
  have ex: "top_anomalies [0.1, 0.9, 0.3, 0.05, 0.7] = [1, 4, 2, 0, 3]"
    by (simp add: top_anomalies_def argsort_def upt_rec)
  have len: "length (top_anomalies errs) = 5"
    using assms by (simp add: top_anomalies_length)
  have "errs \<noteq> []" using assms by auto
  then have rep: "\<exists>r. evaluate_model_performance errs threshold = Inr r
            \<and> map fst (top_reported r) = top_anomalies errs
            \<and> map snd (top_reported r) = map (\<lambda>i. errs ! i) (top_anomalies errs)"
    by (simp add: evaluate_model_performance_def Let_def comp_def)
  show ?thesis
    using rep ex len top_anomalies_distinct [of errs] top_anomalies_subset [of errs]
      top_anomalies_descending [of errs] top_anomalies_dominate [of _ errs]
    by blast
qed

theorem top_anomalies_five_witness:
  "(\<exists>r. evaluate_model_performance [0.2, 0.6, 0.1, 0.5, 0.4, 0.3] 0.45 = Inr r
        \<and> map fst (top_reported r) = [1, 3, 4, 5, 0])
   \<and> length (top_anomalies [0.2, 0.6, 0.1, 0.5, 0.4, 0.3]) = 5
   \<and> distinct (top_anomalies [0.2, 0.6, 0.1, 0.5, 0.4, 0.3])
   \<and> top_anomalies [0.2, 0.6, 0.1, 0.5, 0.4, 0.3] = [1, 3, 4, 5, 0]"
proof -
  have "top_anomalies [0.2, 0.6, 0.1, 0.5, 0.4, 0.3] = [1, 3, 4, 5, 0]"
    by (simp add: top_anomalies_def argsort_def upt_rec)
  moreover have "(5::nat) \<le> length [0.2, 0.6, 0.1, 0.5, 0.4, 0.3::real]" by simp
  ultimately show ?thesis
    using top_anomalies_five [of "[0.2, 0.6, 0.1, 0.5, 0.4, 0.3]" "0.45"] by auto
qed

text \<open>
  C2 as stated fails: on the errors \<open>[0.1, 0.9, 0.3, 0.05, 0.7]\<close> the reported indices
  are not \<open>[1, 4, 2]\<close>, since five indices are reported.
\<close>

theorem top_anomalies_k3_counterexample:
  "top_anomalies [0.1, 0.9, 0.3, 0.05, 0.7] \<noteq> [1, 4, 2]"
  by (simp add: top_anomalies_def argsort_def upt_rec)

section \<open>Properties of the anomaly classification\<close>

lemma count_flags:
  "length (filter (\<lambda>b. b) (map (\<lambda>e. th < e) errs)) = length (filter (\<lambda>e. th < e) errs)"
  by (simp add: filter_map comp_def)

text \<open>
  C10. In the Evaluator and in the Scorer alike a sample is flagged exactly when its
  reconstruction error is strictly greater than the threshold, the number of anomalies is
  the number of such samples, and a sample whose error equals the threshold is not
  flagged.
\<close>

theorem anomaly_strict:
  "(evaluate_model_performance errs th = Inr r \<longrightarrow>
      anomalies r = map (\<lambda>e. th < e) errs
      \<and> num_anomalies r = length (filter (\<lambda>e. th < e) errs)
      \<and> (\<forall>i < length errs. errs ! i = th \<longrightarrow> \<not> anomalies r ! i))
   \<and> (detect_and_evaluate_fraud files csv_path predict sc th = (sc', Inr s) \<longrightarrow>
      flagged s = map (\<lambda>e. th < e) (errors s)
      \<and> n_flagged s = length (filter (\<lambda>e. th < e) (errors s))
      \<and> (\<forall>i < length (errors s). errors s ! i = th \<longrightarrow> \<not> flagged s ! i))"
proof (intro conjI impI)
  assume a: "evaluate_model_performance errs th = Inr r"
  then have r: "anomalies r = map (\<lambda>e. th < e) errs"
    "num_anomalies r = length (filter (\<lambda>b. b) (map (\<lambda>e. th < e) errs))"
    by (auto simp: evaluate_model_performance_def Let_def split: if_splits)
  show "anomalies r = map (\<lambda>e. th < e) errs" by (rule r(1))
  show "num_anomalies r = length (filter (\<lambda>e. th < e) errs)"
    using r(2) by (simp only: count_flags)
  show "\<forall>i < length errs. errs ! i = th \<longrightarrow> \<not> anomalies r ! i"
    by (simp add: r(1))
next
  assume a: "detect_and_evaluate_fraud files csv_path predict sc th = (sc', Inr s)"
  then have s: "flagged s = map (\<lambda>e. th < e) (errors s)"
    "n_flagged s = length (filter (\<lambda>b. b) (map (\<lambda>e. th < e) (errors s)))"
    by (auto simp: detect_and_evaluate_fraud_def Let_def split: option.splits sum.splits)
  show "flagged s = map (\<lambda>e. th < e) (errors s)" by (rule s(1))
  show "n_flagged s = length (filter (\<lambda>e. th < e) (errors s))"
    using s(2) by (simp only: count_flags)
  show "\<forall>i < length (errors s). errors s ! i = th \<longrightarrow> \<not> flagged s ! i"
    by (simp add: s(1))
qed


theorem anomaly_strict_witness:
  "(\<exists>r. evaluate_model_performance [1, 2, 3] 2 = Inr r
        \<and> anomalies r = [False, False, True] \<and> num_anomalies r = 1)
   \<and> (\<exists>s. detect_and_evaluate_fraud
              [''new.csv'' \<mapsto> \<lparr>columns = [''amount''], rows = [[Num 1], [Num 2], [Num 3]]\<rparr>]
              ''new.csv'' (\<lambda>X. map (map (\<lambda>x. 0)) X) \<lparr>sc_mean = [0], sc_scale = [1]\<rparr> 4
            = (\<lparr>sc_mean = [0], sc_scale = [1]\<rparr>, Inr s)
        \<and> errors s = [1, 4, 9] \<and> flagged s = [False, False, True] \<and> n_flagged s = 1)"
proof -
  let ?files = "[''new.csv'' \<mapsto> \<lparr>columns = [''amount''], rows = [[Num 1], [Num 2], [Num 3]]\<rparr>]"
  let ?sc = "\<lparr>sc_mean = [0], sc_scale = [1]\<rparr>"
  let ?predict = "\<lambda>X :: matrix. map (map (\<lambda>x. 0 :: real)) X"
  obtain r where r: "evaluate_model_performance [1, 2, 3] 2 = Inr r"
    by (simp add: evaluate_model_performance_def Let_def)
  obtain s where s: "detect_and_evaluate_fraud ?files ''new.csv'' ?predict ?sc 4 = (?sc, Inr s)"
    and e: "errors s = [1, 4, 9]"
    by (simp add: detect_and_evaluate_fraud_def scorer_preprocess_def dropna_def
        replace_inf_def id_columns_def to_numeric_def scaler_transform_def
        reconstruction_errors_def np_mean_def Let_def)
  have "anomalies r = [False, False, True] \<and> num_anomalies r = 1"
    using r anomaly_strict [of "[1, 2, 3]" 2 r ?files "''new.csv''" ?predict ?sc ?sc s]
    by simp
  moreover have "flagged s = [False, False, True] \<and> n_flagged s = 1"
    using s e anomaly_strict [of "[1, 2, 3]" 4 r ?files "''new.csv''" ?predict ?sc ?sc s]
    by simp
  ultimately show ?thesis using r s e by blast
qed

section \<open>Properties of the threshold\<close>

lemma linear_interpolation_bounds:
  assumes "sorted s" "0 \<le> h" "h \<le> real (length s - 1)" "s \<noteq> []"
  shows "s ! nat \<lfloor>h\<rfloor> \<le> linear_interpolation s h"
    and "linear_interpolation s h \<le> s ! min (nat \<lfloor>h\<rfloor> + 1) (length s - 1)"
proof -
  let ?lo = "nat \<lfloor>h\<rfloor>" and ?n = "length s"
  let ?hi = "min (?lo + 1) (?n - 1)"
  have n: "0 < ?n" using assms(4) by simp
  have lo_le: "?lo \<le> ?n - 1" using assms(2,3) by linarith
  have hi_lt: "?hi < ?n" using n by arith
  have "?lo \<le> ?hi" using lo_le by simp
  then have d: "0 \<le> s ! ?hi - s ! ?lo"
    using sorted_nth_mono [OF assms(1) _ hi_lt, of ?lo] by simp
  have f0: "0 \<le> h - real ?lo" using assms(2) by linarith
  have f1: "h - real ?lo \<le> 1" using assms(2) by linarith
  have "0 \<le> (s ! ?hi - s ! ?lo) * (h - real ?lo)"
    using d f0 by (rule mult_nonneg_nonneg)
  then show "s ! ?lo \<le> linear_interpolation s h"
    by (simp add: linear_interpolation_def Let_def)
  have "(s ! ?hi - s ! ?lo) * (h - real ?lo) \<le> (s ! ?hi - s ! ?lo) * 1"
    using d f1 by (rule mult_left_mono [rotated])
  then show "linear_interpolation s h \<le> s ! ?hi"
    by (simp add: linear_interpolation_def Let_def)
qed

lemma linear_interpolation_mono:
  assumes "sorted s" "s \<noteq> []" "0 \<le> h1" "h1 \<le> h2" "h2 \<le> real (length s - 1)"
  shows "linear_interpolation s h1 \<le> linear_interpolation s h2"
proof (cases "nat \<lfloor>h1\<rfloor> = nat \<lfloor>h2\<rfloor>")
  case True
  let ?lo = "nat \<lfloor>h2\<rfloor>" and ?n = "length s"
  let ?hi = "min (?lo + 1) (?n - 1)"
  have n: "0 < ?n" using assms(2) by simp
  have lo_le: "?lo \<le> ?n - 1" using assms(3,4,5) by linarith
  have hi_lt: "?hi < ?n" using n by arith
  have "?lo \<le> ?hi" using lo_le by simp
  then have d: "0 \<le> s ! ?hi - s ! ?lo"
    using sorted_nth_mono [OF assms(1) _ hi_lt, of ?lo] by simp
  have "(s ! ?hi - s ! ?lo) * (h1 - real ?lo) \<le> (s ! ?hi - s ! ?lo) * (h2 - real ?lo)"
    using d assms(4) by (intro mult_left_mono) simp_all
  then show ?thesis
    using True by (simp add: linear_interpolation_def Let_def)
next
  case False
  let ?lo1 = "nat \<lfloor>h1\<rfloor>" and ?lo2 = "nat \<lfloor>h2\<rfloor>" and ?n = "length s"
  have "\<lfloor>h1\<rfloor> \<le> \<lfloor>h2\<rfloor>" using assms(4) by (rule floor_mono)
  then have "?lo1 \<le> ?lo2" by simp
  with False have lt: "?lo1 + 1 \<le> ?lo2" by simp
  have n: "0 < ?n" using assms(2) by simp
  have lo2: "?lo2 \<le> ?n - 1" using assms(3,4,5) by linarith
  then have lo2_lt: "?lo2 < ?n" using n by arith
  have "min (?lo1 + 1) (?n - 1) \<le> ?lo2" using lt by simp
  then have mid: "s ! min (?lo1 + 1) (?n - 1) \<le> s ! ?lo2"
    using sorted_nth_mono [OF assms(1) _ lo2_lt] by blast
  have h1n: "h1 \<le> real (?n - 1)" using assms(4,5) by simp
  have h2p: "0 \<le> h2" using assms(3,4) by simp
  have "linear_interpolation s h1 \<le> s ! min (?lo1 + 1) (?n - 1)"
    using linear_interpolation_bounds(2) [OF assms(1) assms(3) h1n assms(2)] .
  also note mid
  also have "s ! ?lo2 \<le> linear_interpolation s h2"
    using linear_interpolation_bounds(1) [OF assms(1) h2p assms(5) assms(2)] .
  finally show ?thesis .
qed

text \<open>
  C6. For every error array and every two percentiles \<open>p1 \<le> p2\<close> in \<open>[0, 100]\<close>, the
  threshold \<^verbatim>\<open>np.percentile\<close> computes at \<open>p1\<close> is at most the one it computes at \<open>p2\<close>;
  the only array without a threshold is the empty one, on which both calls fail.
\<close>

theorem percentile_monotone:
  assumes "0 \<le> p1" "p1 \<le> p2" "p2 \<le> 100"
  shows "(errs = [] \<and> np_percentile errs p1 = Inl IndexError
            \<and> np_percentile errs p2 = Inl IndexError)
       \<or> (\<exists>t1 t2. np_percentile errs p1 = Inr t1 \<and> np_percentile errs p2 = Inr t2
            \<and> t1 \<le> t2)"
proof (cases "errs = []")
  case True
  then show ?thesis using assms by (simp add: np_percentile_def)
next
  case False
  let ?s = "sort errs" and ?m = "real (length errs - 1)"
  have "length ?s = length errs" by simp
  then have ne: "?s \<noteq> []" using False by (metis length_0_conv)
  have s: "sorted ?s" "?s \<noteq> []" using ne by simp_all
  have h: "0 \<le> ?m * (p1 / 100)" "?m * (p1 / 100) \<le> ?m * (p2 / 100)"
    using assms by (simp_all add: mult_left_mono)
  have "?m * (p2 / 100) \<le> ?m * 1"
    using assms(3) by (intro mult_left_mono) simp_all
  then have top: "?m * (p2 / 100) \<le> real (length ?s - 1)" by simp
  have "linear_interpolation ?s (?m * (p1 / 100)) \<le> linear_interpolation ?s (?m * (p2 / 100))"
    using linear_interpolation_mono [OF s h top] .
  then show ?thesis using False assms by (simp add: np_percentile_def)
qed

theorem percentile_monotone_witness:
  "np_percentile [0.1, 0.9, 0.3, 0.05, 0.7] 50 = Inr 0.3
   \<and> np_percentile [0.1, 0.9, 0.3, 0.05, 0.7] 95 = Inr 0.86
   \<and> (0.3::real) \<le> 0.86"
proof -
  have a: "np_percentile [0.1, 0.9, 0.3, 0.05, 0.7] 50 = Inr 0.3"
    by (simp add: np_percentile_def linear_interpolation_def Let_def)
  have b: "np_percentile [0.1, 0.9, 0.3, 0.05, 0.7] 95 = Inr 0.86"
    by (simp add: np_percentile_def linear_interpolation_def Let_def)
  show ?thesis
    using a b percentile_monotone [of 50 95 "[0.1, 0.9, 0.3, 0.05, 0.7]"] by simp
qed

section \<open>Properties of the preprocessing\<close>

lemma columns_dropna [simp]: "columns (dropna data) = columns data"
  by (simp add: dropna_def)

lemma columns_replace_inf [simp]: "columns (replace_inf data) = columns data"
  by (simp add: replace_inf_def)

lemma columns_keep_columns [simp]: "columns (keep_columns P data) = filter P (columns data)"
  by (simp add: keep_columns_def)

lemma column_index_None: "column_index c cols = None \<longleftrightarrow> c \<notin> set cols"
  by (induction cols) auto

lemma column_index_Some: "column_index c cols = Some i \<Longrightarrow> i < length cols \<and> cols ! i = c"
  by (induction cols arbitrary: i) (auto split: if_splits)

lemma drop_columns_KeyError:
  "drop_columns labels data = Inl e \<longleftrightarrow> e = KeyError \<and> \<not> set labels \<subseteq> set (columns data)"
  by (auto simp: drop_columns_def list_all_iff)

lemma drop_columns_Inr:
  "drop_columns labels data = Inr data' \<longleftrightarrow>
     set labels \<subseteq> set (columns data) \<and> data' = keep_columns (\<lambda>c. c \<notin> set labels) data"
  by (auto simp: drop_columns_def list_all_iff)

lemma get_column_KeyError:
  "c \<notin> set (columns data) \<Longrightarrow> get_column c data = Inl KeyError"
  by (simp add: get_column_def column_index_None [THEN iffD2])

lemma encode_column_KeyError:
  "c \<notin> set (columns data) \<Longrightarrow> encode_column c data = Inl KeyError"
  by (simp add: encode_column_def get_column_KeyError)

lemma address_state_not_id: "''address_state'' \<notin> set id_columns"
  by (simp add: id_columns_def)

lemma loader_preprocess_KeyError:
  assumes "\<not> set id_columns \<subseteq> set (columns data) \<or> ''address_state'' \<notin> set (columns data)"
  shows "loader_preprocess data = Inl KeyError"
proof (cases "set id_columns \<subseteq> set (columns data)")
  case False
  then have "drop_columns id_columns (dropna (replace_inf (dropna data))) = Inl KeyError"
    by (simp add: drop_columns_KeyError)
  then show ?thesis by (simp add: loader_preprocess_def)
next
  case True
  let ?d = "dropna (replace_inf (dropna data))"
  from True assms have miss: "''address_state'' \<notin> set (columns data)" by blast
  have d: "drop_columns id_columns ?d = Inr (keep_columns (\<lambda>c. c \<notin> set id_columns) ?d)"
    using True by (simp add: drop_columns_Inr)
  have "''address_state'' \<notin> set (columns (keep_columns (\<lambda>c. c \<notin> set id_columns) ?d))"
    using miss by simp
  then have "encode_column ''address_state'' (keep_columns (\<lambda>c. c \<notin> set id_columns) ?d) = Inl KeyError"
    by (rule encode_column_KeyError)
  then show ?thesis using d by (simp add: loader_preprocess_def)
qed

text \<open>
  C1 (amended). If an expected column (one of the seven identifier and free-text columns,
  or \<open>address_state\<close>) is absent from the training table, \<^verbatim>\<open>load_and_preprocess_data\<close>
  raises \<^verbatim>\<open>KeyError\<close>: the Loader drops and encodes unconditionally, and only the
  Scorer guards these steps.
\<close>

theorem loader_missing_column_raises:
  assumes "db db_path = Some data"
    and "(\<exists>c \<in> set id_columns. c \<notin> set (columns data)) \<or> ''address_state'' \<notin> set (columns data)"
  shows "load_and_preprocess_data RandomState permutation global_rng db db_path = Inl KeyError"
proof -
  have "\<not> set id_columns \<subseteq> set (columns data) \<or> ''address_state'' \<notin> set (columns data)"
    using assms(2) by blast
  then have "loader_preprocess data = Inl KeyError"
    by (rule loader_preprocess_KeyError)
  then show ?thesis using assms(1) by (simp add: load_and_preprocess_data_def)
qed

theorem loader_missing_column_raises_witness:
  "load_and_preprocess_data (\<lambda>seed. seed) (\<lambda>g n. [0..<n]) (0::nat)
     [''db.sqlite3'' \<mapsto> \<lparr>columns = [''id'', ''address_state'', ''amount''],
                            rows = [[Num 1, Str ''NY'', Num 10], [Num 2, Str ''CA'', Num 20]]\<rparr>]
     ''db.sqlite3'' = Inl KeyError"
proof -
  let ?data = "\<lparr>columns = [''id'', ''address_state'', ''amount''],
                 rows = [[Num 1, Str ''NY'', Num 10], [Num 2, Str ''CA'', Num 20]]\<rparr>"
  have "\<exists>c \<in> set id_columns. c \<notin> set (columns ?data)"
    by (simp add: id_columns_def)
  then show ?thesis
    using loader_missing_column_raises [of "[''db.sqlite3'' \<mapsto> ?data]" "''db.sqlite3''" ?data]
    by simp
qed

text \<open>
  C1 as stated fails: a training table that has all seven identifier columns but no
  \<open>address_state\<close>, and one that lacks \<open>email\<close>, both make the Loader raise.
\<close>

theorem loader_tolerates_counterexample:
  "load_and_preprocess_data (\<lambda>seed. seed) (\<lambda>g n. [0..<n]) (0::nat)
     [''db.sqlite3'' \<mapsto>
        \<lparr>columns = [''id'', ''card_id'', ''customer_id'', ''email'', ''address_city'',
                     ''address_country'', ''name_on_card'', ''amount''],
         rows = [[Num 1, Str ''c1'', Str ''u1'', Str ''a@b.c'', Str ''Troy'', Str ''US'',
                  Str ''A B'', Num 10],
                 [Num 2, Str ''c2'', Str ''u2'', Str ''d@e.f'', Str ''Rome'', Str ''US'',
                  Str ''C D'', Num 20]]\<rparr>]
     ''db.sqlite3'' = Inl KeyError
   \<and> load_and_preprocess_data (\<lambda>seed. seed) (\<lambda>g n. [0..<n]) (0::nat)
     [''db.sqlite3'' \<mapsto>
        \<lparr>columns = [''id'', ''card_id'', ''customer_id'', ''address_city'',
                     ''address_country'', ''name_on_card'', ''address_state'', ''amount''],
         rows = [[Num 1, Str ''c1'', Str ''u1'', Str ''Troy'', Str ''US'',
                  Str ''A B'', Str ''NY'', Num 10],
                 [Num 2, Str ''c2'', Str ''u2'', Str ''Rome'', Str ''US'',
                  Str ''C D'', Str ''CA'', Num 20]]\<rparr>]
     ''db.sqlite3'' = Inl KeyError"
  by (simp add: load_and_preprocess_data_def loader_preprocess_def drop_columns_def
      keep_columns_def dropna_def replace_inf_def id_columns_def encode_column_def
      get_column_def)

section \<open>Well-formed frames and reading a column back\<close>

lemma wf_dropna: "wf_frame data \<Longrightarrow> wf_frame (dropna data)"
  by (auto simp: wf_frame_def dropna_def list_all_iff)

lemma wf_replace_inf: "wf_frame data \<Longrightarrow> wf_frame (replace_inf data)"
  by (auto simp: wf_frame_def replace_inf_def list_all_iff)

lemma length_kept:
  "length r = length cols \<Longrightarrow>
   length (filter (\<lambda>(c, x). P c) (zip cols r)) = length (filter P cols)"
proof (induction cols arbitrary: r)
  case Nil
  then show ?case by simp
next
  case (Cons c cols)
  then obtain x r' where "r = x # r'" "length r' = length cols"
    by (cases r) auto
  with Cons.IH [of r'] show ?case by simp
qed

lemma wf_keep_columns: "wf_frame data \<Longrightarrow> wf_frame (keep_columns P data)"
  by (auto simp: wf_frame_def keep_columns_def list_all_iff length_kept)

lemma kept_nth:
  "length r = length cols \<Longrightarrow> P c \<Longrightarrow> column_index c cols = Some i \<Longrightarrow>
   \<exists>j. column_index c (filter P cols) = Some j
       \<and> map snd (filter (\<lambda>(c, x). P c) (zip cols r)) ! j = r ! i"
proof (induction cols arbitrary: r i)
  case Nil
  then show ?case by simp
next
  case (Cons a cols)
  then obtain x r' where r: "r = x # r'" "length r' = length cols"
    by (cases r) auto
  show ?case
  proof (cases "a = c")
    case True
    then show ?thesis using Cons.prems r by simp
  next
    case False
    with Cons.prems obtain i' where i': "column_index c cols = Some i'" "i = Suc i'"
      by auto
    from Cons.IH [OF r(2) Cons.prems(2) i'(1)] obtain j where
      j: "column_index c (filter P cols) = Some j"
         "map snd (filter (\<lambda>(c, x). P c) (zip cols r')) ! j = r' ! i'"
      by blast
    show ?thesis using False r i' j by simp
  qed
qed

lemma get_column_keep_columns:
  assumes "wf_frame data" "P c"
  shows "get_column c (keep_columns P data) = get_column c data"
proof (cases "column_index c (columns data)")
  case None
  then have "c \<notin> set (columns data)" by (simp add: column_index_None)
  then show ?thesis using assms(2) by (simp add: get_column_KeyError)
next
  case (Some i)
  have len: "\<forall>r \<in> set (rows data). length r = length (columns data)"
    using assms(1) by (simp add: wf_frame_def list_all_iff)
  obtain j where j: "column_index c (filter P (columns data)) = Some j"
    using kept_nth [of "replicate (length (columns data)) NaN" "columns data" P c i] assms(2) Some
    by auto
  have "\<forall>r \<in> set (rows data).
          map snd (filter (\<lambda>(c, x). P c) (zip (columns data) r)) ! j = r ! i"
  proof
    fix r assume "r \<in> set (rows data)"
    then have "length r = length (columns data)" using len by blast
    with kept_nth [of r "columns data" P c i] assms(2) Some j
    show "map snd (filter (\<lambda>(c, x). P c) (zip (columns data) r)) ! j = r ! i" by auto
  qed
  then show ?thesis
    using Some j by (simp add: get_column_def keep_columns_def)
qed

lemma get_column_length: "get_column c data = Inr y \<Longrightarrow> length y = length (rows data)"
  by (auto simp: get_column_def split: option.splits)

lemma columns_set_column:
  "c \<in> set (columns data) \<Longrightarrow> columns (set_column c vals data) = columns data"
  by (auto simp: set_column_def column_index_None split: option.splits)

lemma nth_update_rows:
  "length rs = length vals \<Longrightarrow> \<forall>r \<in> set rs. i < length r \<Longrightarrow>
   map (\<lambda>r. r ! i) (map2 (\<lambda>r v. r[i := v]) rs vals) = vals"
  by (induction rs vals rule: list_induct2) simp_all

lemma get_set_column:
  assumes "wf_frame data" "c \<in> set (columns data)" "length vals = length (rows data)"
  shows "get_column c (set_column c vals data) = Inr vals"
proof -
  obtain i where i: "column_index c (columns data) = Some i"
    using assms(2) column_index_None [of c "columns data"] by auto
  then have "i < length (columns data)" by (simp add: column_index_Some)
  then have "\<forall>r \<in> set (rows data). i < length r"
    using assms(1) by (auto simp: wf_frame_def list_all_iff)
  then have "map (\<lambda>r. r ! i) (map2 (\<lambda>r v. r[i := v]) (rows data) vals) = vals"
    using assms(3) by (intro nth_update_rows) simp_all
  then show ?thesis
    using i by (simp add: get_column_def set_column_def)
qed

lemma those_length: "those xs = Some ys \<Longrightarrow> length ys = length xs"
  by (induction xs arbitrary: ys) (auto split: option.splits)

lemma encode_codes:
  "length (encode ys) = length ys \<and> (\<forall>c \<in> set (encode ys). \<exists>k. c = Num (real k))"
  by (auto simp: encode_def Let_def)

lemma label_fit_transform_codes:
  assumes "label_fit_transform y = Inr codes"
  shows "length codes = length y" and "\<forall>c \<in> set codes. \<exists>k. c = Num (real k)"
proof -
  from assms consider
    (s) ss where "those (map str_of y) = Some ss" "codes = encode ss"
  | (n) ns where "those (map num_of y) = Some ns" "codes = encode ns"
    by (auto simp: label_fit_transform_def split: option.splits)
  then have "length codes = length y \<and> (\<forall>c \<in> set codes. \<exists>k. c = Num (real k))"
  proof cases
    case s
    then show ?thesis using those_length [OF s(1)] encode_codes [of ss] by simp
  next
    case n
    then show ?thesis using those_length [OF n(1)] encode_codes [of ns] by simp
  qed
  then show "length codes = length y" and "\<forall>c \<in> set codes. \<exists>k. c = Num (real k)"
    by simp_all
qed

lemma scorer_preprocess_columns_eq:
  assumes "scorer_preprocess data = Inr data'"
  shows "columns data' =
     (if set id_columns \<subseteq> set (columns data)
      then filter (\<lambda>c. c \<notin> set id_columns) (columns data) else columns data)"
proof -
  let ?d = "dropna (replace_inf (dropna data))"
  let ?k = "if set id_columns \<subseteq> set (columns data)
            then keep_columns (\<lambda>c. c \<notin> set id_columns) ?d else ?d"
  have step: "(if set id_columns \<subseteq> set (columns ?d) then drop_columns id_columns ?d else Inr ?d)
      = Inr ?k"
    by (simp add: drop_columns_Inr)
  have cols: "columns ?k = (if set id_columns \<subseteq> set (columns data)
      then filter (\<lambda>c. c \<notin> set id_columns) (columns data) else columns data)"
    by simp
  from assms step have res:
    "(if ''address_state'' \<in> set (columns ?k) then encode_column ''address_state'' ?k else Inr ?k)
       = Inr data'"
    by (simp add: scorer_preprocess_def Let_def)
  show ?thesis
  proof (cases "''address_state'' \<in> set (columns ?k)")
    case False
    with res have "data' = ?k" by simp
    then show ?thesis using cols by simp
  next
    case True
    with res obtain y codes where "data' = set_column ''address_state'' codes ?k"
      by (auto simp: encode_column_def split: sum.splits)
    then have "columns data' = columns ?k"
      using True by (simp only: columns_set_column)
    then show ?thesis using cols by simp
  qed
qed

lemma scorer_preprocess_encodes:
  assumes "wf_frame data" "''address_state'' \<in> set (columns data)"
    and "scorer_preprocess data = Inr data'"
  shows "\<exists>y codes. get_column ''address_state'' (dropna (replace_inf (dropna data))) = Inr y
           \<and> label_fit_transform y = Inr codes
           \<and> get_column ''address_state'' data' = Inr codes"
proof -
  let ?d = "dropna (replace_inf (dropna data))"
  let ?k = "if set id_columns \<subseteq> set (columns data)
            then keep_columns (\<lambda>c. c \<notin> set id_columns) ?d else ?d"
  have wfd: "wf_frame ?d" using assms(1) by (intro wf_dropna wf_replace_inf)
  then have wfk: "wf_frame ?k" by (simp add: wf_keep_columns)
  have step: "(if set id_columns \<subseteq> set (columns ?d) then drop_columns id_columns ?d else Inr ?d)
      = Inr ?k"
    by (simp add: drop_columns_Inr)
  have mem: "''address_state'' \<in> set (columns ?k)"
    using assms(2) address_state_not_id by simp
  have same: "get_column ''address_state'' ?k = get_column ''address_state'' ?d"
    using get_column_keep_columns [OF wfd, of "\<lambda>c. c \<notin> set id_columns" "''address_state''"]
      address_state_not_id by simp
  from assms(3) step mem have res: "encode_column ''address_state'' ?k = Inr data'"
    by (simp add: scorer_preprocess_def Let_def)
  then obtain y codes where y: "get_column ''address_state'' ?k = Inr y"
    and c: "label_fit_transform y = Inr codes"
    and d: "data' = set_column ''address_state'' codes ?k"
    by (auto simp: encode_column_def split: sum.splits)
  have "length y = length (rows ?k)"
    using y by (rule get_column_length)
  then have "length codes = length (rows ?k)"
    using label_fit_transform_codes(1) [OF c] by simp
  then have "get_column ''address_state'' data' = Inr codes"
    unfolding d using wfk mem by (intro get_set_column)
  then show ?thesis using y c same by auto
qed

section \<open>Properties of the Scorer preprocessing\<close>

lemma encode_column_not_KeyError:
  assumes "c \<in> set (columns data)"
  shows "encode_column c data \<noteq> Inl KeyError"
proof -
  obtain i where "column_index c (columns data) = Some i"
    using assms column_index_None [of c "columns data"]
    by (cases "column_index c (columns data)") auto
  then show ?thesis
    by (auto simp: encode_column_def get_column_def label_fit_transform_def
        split: sum.splits option.splits)
qed

lemma scorer_preprocess_no_KeyError: "scorer_preprocess data \<noteq> Inl KeyError"
proof -
  let ?d = "dropna (replace_inf (dropna data))"
  let ?k = "if set id_columns \<subseteq> set (columns data)
            then keep_columns (\<lambda>c. c \<notin> set id_columns) ?d else ?d"
  have step: "(if set id_columns \<subseteq> set (columns ?d) then drop_columns id_columns ?d else Inr ?d)
      = Inr ?k"
    by (simp add: drop_columns_Inr)
  have "''address_state'' \<in> set (columns ?k) \<Longrightarrow>
        encode_column ''address_state'' ?k \<noteq> Inl KeyError"
    by (rule encode_column_not_KeyError)
  then show ?thesis
    using step by (simp add: scorer_preprocess_def Let_def)
qed

lemma detect_no_KeyError:
  "snd (detect_and_evaluate_fraud files csv_path predict sc threshold) \<noteq> Inl KeyError"
  using scorer_preprocess_no_KeyError
  by (auto simp: detect_and_evaluate_fraud_def to_numeric_def scaler_transform_def Let_def
      split: option.splits sum.splits if_splits)

text \<open>
  C3 (amended). For every new dataset the Scorer never raises \<^verbatim>\<open>KeyError\<close>, and
  when its preprocessing completes: the seven identifier and free-text columns are
  dropped only when all seven are present, and when one of them is missing none is
  dropped and the columns stay as they were; \<open>address_state\<close>, when present, holds
  integer codes afterwards.
\<close>

theorem scorer_preprocess_rules:
  "snd (detect_and_evaluate_fraud files csv_path predict sc threshold) \<noteq> Inl KeyError
   \<and> scorer_preprocess data \<noteq> Inl KeyError
   \<and> (scorer_preprocess data = Inr data' \<longrightarrow>
        columns data' =
          (if set id_columns \<subseteq> set (columns data)
           then filter (\<lambda>c. c \<notin> set id_columns) (columns data) else columns data)
        \<and> (wf_frame data \<and> ''address_state'' \<in> set (columns data) \<longrightarrow>
             (\<exists>codes. get_column ''address_state'' data' = Inr codes
                \<and> (\<forall>c \<in> set codes. \<exists>k. c = Num (real k)))))"
proof (intro conjI impI)
  show "snd (detect_and_evaluate_fraud files csv_path predict sc threshold) \<noteq> Inl KeyError"
    by (rule detect_no_KeyError)
next
  show "scorer_preprocess data \<noteq> Inl KeyError"
    by (rule scorer_preprocess_no_KeyError)
next
  assume "scorer_preprocess data = Inr data'"
  then show "columns data' =
          (if set id_columns \<subseteq> set (columns data)
           then filter (\<lambda>c. c \<notin> set id_columns) (columns data) else columns data)"
    by (rule scorer_preprocess_columns_eq)
next
  assume r: "scorer_preprocess data = Inr data'"
    and "wf_frame data \<and> ''address_state'' \<in> set (columns data)"
  then have "wf_frame data" "''address_state'' \<in> set (columns data)" by simp_all
  from scorer_preprocess_encodes [OF this r] obtain y codes where
    "label_fit_transform y = Inr codes" "get_column ''address_state'' data' = Inr codes"
    by blast
  then show "\<exists>codes. get_column ''address_state'' data' = Inr codes
                \<and> (\<forall>c \<in> set codes. \<exists>k. c = Num (real k))"
    using label_fit_transform_codes(2) by blast
qed

theorem scorer_preprocess_rules_witness:
  "\<exists>data'. scorer_preprocess
       \<lparr>columns = [''id'', ''card_id'', ''customer_id'', ''email'', ''address_city'',
                    ''address_country'', ''name_on_card'', ''address_state'', ''amount''],
        rows = [[Num 1, Str ''c1'', Str ''u1'', Str ''a@b.c'', Str ''Troy'', Str ''US'',
                 Str ''A B'', Str ''NY'', Num 10],
                [Num 2, Str ''c2'', Str ''u2'', Str ''d@e.f'', Str ''Rome'', Str ''US'',
                 Str ''C D'', Str ''CA'', Num 20]]\<rparr> = Inr data'
     \<and> columns data' = [''address_state'', ''amount'']
     \<and> (\<exists>codes. get_column ''address_state'' data' = Inr codes
           \<and> (\<forall>c \<in> set codes. \<exists>k. c = Num (real k)))"
proof -
  let ?data = "\<lparr>columns = [''id'', ''card_id'', ''customer_id'', ''email'', ''address_city'',
                    ''address_country'', ''name_on_card'', ''address_state'', ''amount''],
        rows = [[Num 1, Str ''c1'', Str ''u1'', Str ''a@b.c'', Str ''Troy'', Str ''US'',
                 Str ''A B'', Str ''NY'', Num 10],
                [Num 2, Str ''c2'', Str ''u2'', Str ''d@e.f'', Str ''Rome'', Str ''US'',
                 Str ''C D'', Str ''CA'', Num 20]]\<rparr>"
  obtain data' where r: "scorer_preprocess ?data = Inr data'"
    by (simp add: scorer_preprocess_def drop_columns_def keep_columns_def dropna_def
        replace_inf_def id_columns_def encode_column_def get_column_def set_column_def
        label_fit_transform_def encode_def unique_def Let_def)
  have wf: "wf_frame ?data" by (simp add: wf_frame_def)
  have sub: "set id_columns \<subseteq> set (columns ?data)" by (simp add: id_columns_def)
  have cols: "filter (\<lambda>c. c \<notin> set id_columns) (columns ?data) = [''address_state'', ''amount'']"
    by (simp add: id_columns_def)
  have mem: "''address_state'' \<in> set (columns ?data)" by simp
  from scorer_preprocess_rules [of _ _ _ _ _ ?data data'] r wf sub mem
  have "columns data' = filter (\<lambda>c. c \<notin> set id_columns) (columns ?data)
     \<and> (\<exists>codes. get_column ''address_state'' data' = Inr codes
           \<and> (\<forall>c \<in> set codes. \<exists>k. c = Num (real k)))"
    by presburger
  then show ?thesis using r cols by (intro exI [of _ data']) simp
qed

text \<open>
  C3 as stated fails: a dataset that has only \<open>id\<close> of the seven identifier columns
  keeps it.
\<close>

theorem scorer_partial_drop_counterexample:
  "scorer_preprocess
     \<lparr>columns = [''id'', ''address_state'', ''amount''],
      rows = [[Num 1, Str ''NY'', Num 10], [Num 2, Str ''CA'', Num 20]]\<rparr>
   = Inr \<lparr>columns = [''id'', ''address_state'', ''amount''],
          rows = [[Num 1, Num 1, Num 10], [Num 2, Num 0, Num 20]]\<rparr>"
  by (simp add: scorer_preprocess_def dropna_def replace_inf_def id_columns_def
      encode_column_def get_column_def set_column_def label_fit_transform_def encode_def
      unique_def Let_def)




section \<open>Properties of the split and of the scaler across scoring\<close>

lemma train_test_split_seeded:
  "train_test_split RandomState permutation g1 arr test_size (Some seed)
   = train_test_split RandomState permutation g2 arr test_size (Some seed)"
  by (simp add: train_test_split_def Let_def)

text \<open>
  C8. Two runs of the Loader on the same database give the same outcome, the same training
  rows, test rows and scaler or the same error, whatever state numpy's global random
  generator is in at each run: the split draws its permutation from the generator seeded
  with 42, never from the global one.
\<close>

theorem loader_deterministic:
  "load_and_preprocess_data RandomState permutation g1 db db_path
   = load_and_preprocess_data RandomState permutation g2 db db_path"
  unfolding load_and_preprocess_data_def
    train_test_split_seeded [of RandomState permutation g1 _ _ _ g2]
  by (rule refl)

lemma detect_fst: "fst (detect_and_evaluate_fraud files csv_path predict sc threshold) = sc"
  by (simp add: detect_and_evaluate_fraud_def Let_def split: option.splits sum.splits)

lemma score_all_scaler:
  "score_all files predict threshold sc paths =
     (sc, map (\<lambda>p. snd (detect_and_evaluate_fraud files p predict sc threshold)) paths)"
proof (induction paths)
  case Nil
  show ?case by simp
next
  case (Cons p ps)
  obtain r where r: "detect_and_evaluate_fraud files p predict sc threshold = (sc, r)"
    using detect_fst [of files p predict sc threshold]
    by (cases "detect_and_evaluate_fraud files p predict sc threshold") simp
  show ?case using Cons.IH r by simp
qed

text \<open>
  C9. The Scorer leaves the scaler as it found it: after \<^verbatim>\<open>detect_and_evaluate_fraud\<close>,
  whether it completed or raised, the scaler's mean and scale are the fitted ones; the data
  it scores is the transform of the new dataset by that scaler; and scoring any list of
  files one after the other leaves the scaler unchanged and scores each file exactly as
  scoring it alone with the training-time scaler does.
\<close>

theorem scorer_keeps_scaler:
  "fst (detect_and_evaluate_fraud files csv_path predict sc threshold) = sc
   \<and> (snd (detect_and_evaluate_fraud files csv_path predict sc threshold) = Inr s \<longrightarrow>
        (\<exists>raw data X. files csv_path = Some raw \<and> scorer_preprocess raw = Inr data
            \<and> to_numeric data = Inr X \<and> scaler_transform sc X = Inr (scaled s)))
   \<and> score_all files predict threshold sc paths =
        (sc, map (\<lambda>p. snd (detect_and_evaluate_fraud files p predict sc threshold)) paths)"
proof (intro conjI impI)
  show "fst (detect_and_evaluate_fraud files csv_path predict sc threshold) = sc"
    by (rule detect_fst)
next
  assume "snd (detect_and_evaluate_fraud files csv_path predict sc threshold) = Inr s"
  then show "\<exists>raw data X. files csv_path = Some raw \<and> scorer_preprocess raw = Inr data
            \<and> to_numeric data = Inr X \<and> scaler_transform sc X = Inr (scaled s)"
    by (auto simp: detect_and_evaluate_fraud_def Let_def split: option.splits sum.splits)
next
  show "score_all files predict threshold sc paths =
        (sc, map (\<lambda>p. snd (detect_and_evaluate_fraud files p predict sc threshold)) paths)"
    by (rule score_all_scaler)
qed

theorem scorer_keeps_scaler_witness:
  "\<exists>s. detect_and_evaluate_fraud
          [''new.csv'' \<mapsto> \<lparr>columns = [''amount''], rows = [[Num 3], [Num 5]]\<rparr>]
          ''new.csv'' (\<lambda>X. X) \<lparr>sc_mean = [1], sc_scale = [2]\<rparr> 0
        = (\<lparr>sc_mean = [1], sc_scale = [2]\<rparr>, Inr s)
      \<and> scaler_transform \<lparr>sc_mean = [1], sc_scale = [2]\<rparr> [[3], [5]] = Inr (scaled s)
      \<and> scaled s = [[1], [2]]"
proof -
  let ?files = "[''new.csv'' \<mapsto> \<lparr>columns = [''amount''], rows = [[Num 3], [Num 5]]\<rparr>]"
  let ?sc = "\<lparr>sc_mean = [1], sc_scale = [2]\<rparr>"
  obtain s where s: "detect_and_evaluate_fraud ?files ''new.csv'' (\<lambda>X. X) ?sc 0 = (?sc, Inr s)"
    by (simp add: detect_and_evaluate_fraud_def scorer_preprocess_def dropna_def
        replace_inf_def id_columns_def to_numeric_def scaler_transform_def Let_def)
  have pre: "scorer_preprocess \<lparr>columns = [''amount''], rows = [[Num 3], [Num 5]]\<rparr>
      = Inr \<lparr>columns = [''amount''], rows = [[Num 3], [Num 5]]\<rparr>"
    by (simp add: scorer_preprocess_def dropna_def replace_inf_def id_columns_def)
  have num: "to_numeric \<lparr>columns = [''amount''], rows = [[Num 3], [Num 5]]\<rparr> = Inr [[3], [5]]"
    by (simp add: to_numeric_def)
  have "snd (detect_and_evaluate_fraud ?files ''new.csv'' (\<lambda>X. X) ?sc 0) = Inr s"
    using s by simp
  then have "\<exists>raw data X. ?files ''new.csv'' = Some raw \<and> scorer_preprocess raw = Inr data
      \<and> to_numeric data = Inr X \<and> scaler_transform ?sc X = Inr (scaled s)"
    using scorer_keeps_scaler [of ?files "''new.csv''" "\<lambda>X. X" ?sc 0 s "[]"] by blast
  then obtain raw data X where "?files ''new.csv'' = Some raw" "scorer_preprocess raw = Inr data"
    "to_numeric data = Inr X" "scaler_transform ?sc X = Inr (scaled s)"
    by blast
  with pre num have t: "scaler_transform ?sc [[3], [5]] = Inr (scaled s)" by simp
  then have "scaled s = [[1], [2]]" by (simp add: scaler_transform_def)
  then show ?thesis using s t by blast
qed

section \<open>Properties of the standard scaling\<close>
















end
